theory Spec2Isabelle
  imports Complex_Main
begin

section \<open>Shared conventions\<close>

text \<open>
  Python floats are modelled as real numbers and Python ints as \<open>int\<close>.  The clock
  (\<open>time.time()\<close>) is an input of every operation that reads it.  \<open>int(x)\<close> on a
  float truncates towards zero.
\<close>

definition py_int :: "real \<Rightarrow> int" where
  "py_int x = (if 0 \<le> x then \<lfloor>x\<rfloor> else \<lceil>x\<rceil>)"

section \<open>Risk governor: \<open>utils/kill_switch.py\<close>\<close>

text \<open>
  The reason string of a trip is built from the accumulated loss
  (\<open>f"Daily loss limit exceeded: ${self.daily_loss:.2f}"\<close>) or supplied by the caller;
  the alert system is an external collaborator, so the alerts handed to it are
  collected in the state.  \<open>record_loss\<close> reads the clock for the rollover check and
  again when it trips; both readings are the one clock input of the operation.
\<close>

datatype trip_reason = DailyLossLimit real | Requested string

datatype alert = CriticalAlert trip_reason | FailedTxAlert int

record kill_switch =
  max_daily_loss_usd :: real
  max_failed_tx :: int
  auto_kill_enabled :: bool
  alert_system :: bool
  triggered :: bool
  trigger_reason :: "trip_reason option"
  trigger_time :: "real option"
  daily_loss :: real
  failed_tx_count :: int
  last_reset_day :: int
  alerts :: "alert list"

definition get_current_day :: "real \<Rightarrow> int" where
  "get_current_day now = py_int (now / 86400)"

definition kill_switch_init :: "real \<Rightarrow> real \<Rightarrow> int \<Rightarrow> bool \<Rightarrow> bool \<Rightarrow> kill_switch" where
  "kill_switch_init now max_loss max_failed auto_kill has_alerts =
     \<lparr> max_daily_loss_usd = max_loss, max_failed_tx = max_failed,
       auto_kill_enabled = auto_kill, alert_system = has_alerts,
       triggered = False, trigger_reason = None, trigger_time = None,
       daily_loss = 0, failed_tx_count = 0,
       last_reset_day = get_current_day now, alerts = [] \<rparr>"

definition reset_daily_counters :: "real \<Rightarrow> kill_switch \<Rightarrow> kill_switch" where
  "reset_daily_counters now s =
     (let current_day = get_current_day now in
      if current_day > last_reset_day s
      then s\<lparr> daily_loss := 0, failed_tx_count := 0, last_reset_day := current_day \<rparr>
      else s)"

definition trigger :: "real \<Rightarrow> trip_reason \<Rightarrow> kill_switch \<Rightarrow> kill_switch" where
  "trigger now reason s =
     (if triggered s then s
      else if \<not> auto_kill_enabled s then s
      else let s1 = s\<lparr> triggered := True, trigger_reason := Some reason,
                         trigger_time := Some now \<rparr>
           in if alert_system s1 then s1\<lparr> alerts := alerts s1 @ [CriticalAlert reason] \<rparr>
              else s1)"

definition record_loss :: "real \<Rightarrow> real \<Rightarrow> kill_switch \<Rightarrow> kill_switch" where
  "record_loss now loss_usd s =
     (let s1 = reset_daily_counters now s;
          s2 = s1\<lparr> daily_loss := daily_loss s1 + \<bar>loss_usd\<bar> \<rparr>
      in if daily_loss s2 \<ge> max_daily_loss_usd s2
         then trigger now (DailyLossLimit (daily_loss s2)) s2
         else s2)"

definition record_failed_transaction :: "real \<Rightarrow> kill_switch \<Rightarrow> kill_switch" where
  "record_failed_transaction now s =
     (let s1 = reset_daily_counters now s;
          s2 = s1\<lparr> failed_tx_count := failed_tx_count s1 + 1 \<rparr>
      in if failed_tx_count s2 \<ge> max_failed_tx s2 \<and> alert_system s2
         then s2\<lparr> alerts := alerts s2 @ [FailedTxAlert (failed_tx_count s2)] \<rparr>
         else s2)"

definition is_triggered :: "kill_switch \<Rightarrow> bool" where
  "is_triggered s = triggered s"

definition check_daily_loss :: "real \<Rightarrow> kill_switch \<Rightarrow> bool \<times> kill_switch" where
  "check_daily_loss now s =
     (let s1 = reset_daily_counters now s
      in (daily_loss s1 \<ge> max_daily_loss_usd s1, s1))"

text \<open>
  \<open>get_status\<close> builds a dictionary from the state after the rollover check; the
  percentage divides by the ceiling and raises \<open>ZeroDivisionError\<close> when it is zero,
  after the rollover has already been applied.
\<close>

record status =
  st_triggered :: bool
  st_trigger_reason :: "trip_reason option"
  st_trigger_time :: "real option"
  st_daily_loss_usd :: real
  st_daily_loss_percent :: real
  st_failed_tx_count :: int

definition get_status :: "real \<Rightarrow> kill_switch \<Rightarrow> status option \<times> kill_switch" where
  "get_status now s =
     (let s1 = reset_daily_counters now s
      in (if max_daily_loss_usd s1 = 0 then None
          else Some \<lparr> st_triggered = triggered s1,
                      st_trigger_reason = trigger_reason s1,
                      st_trigger_time = trigger_time s1,
                      st_daily_loss_usd = daily_loss s1,
                      st_daily_loss_percent = daily_loss s1 / max_daily_loss_usd s1 * 100,
                      st_failed_tx_count = failed_tx_count s1 \<rparr>,
          s1))"

definition reset :: "kill_switch \<Rightarrow> kill_switch" where
  "reset s = s\<lparr> triggered := False, trigger_reason := None, trigger_time := None \<rparr>"

text \<open>
  \<open>manual_trigger\<close> creates a task that runs \<open>trigger\<close>; the model is the state once
  that task has run.
\<close>

definition manual_trigger :: "real \<Rightarrow> string \<Rightarrow> kill_switch \<Rightarrow> kill_switch" where
  "manual_trigger now reason s = trigger now (Requested reason) s"

text \<open>A governor operation together with the clock reading it sees.\<close>

datatype ks_op =
    RecordLoss real
  | RecordFailedTransaction
  | ManualTrigger string
  | CheckDailyLoss
  | GetStatus
  | IsTriggered
  | Reset

fun ks_step :: "kill_switch \<Rightarrow> real \<times> ks_op \<Rightarrow> kill_switch" where
  "ks_step s (now, RecordLoss l) = record_loss now l s"
| "ks_step s (now, RecordFailedTransaction) = record_failed_transaction now s"
| "ks_step s (now, ManualTrigger r) = manual_trigger now r s"
| "ks_step s (now, CheckDailyLoss) = snd (check_daily_loss now s)"
| "ks_step s (now, GetStatus) = snd (get_status now s)"
| "ks_step s (now, IsTriggered) = s"
| "ks_step s (now, Reset) = reset s"

definition ks_run :: "kill_switch \<Rightarrow> (real \<times> ks_op) list \<Rightarrow> kill_switch" where
  "ks_run s ops = foldl ks_step s ops"

section \<open>Opportunity scheduler: \<open>bot/strategy_manager.py\<close>\<close>

text \<open>
  An opportunity is a Python dictionary.  A key read with \<open>[]\<close> raises \<open>KeyError\<close>
  when it is missing, a key read with \<open>.get\<close> has a default, so every key the code
  reads is an optional field.  The payload under \<open>'data'\<close> is opaque apart from the
  victim's gas price that the tip calculation reads.
\<close>

datatype py_error = KeyError string | IndexError

record payload =
  victim_gas_price_gwei :: "real option"

record opportunity =
  opp_strategy :: "string option"
  opp_expected_profit_usd :: "real option"
  opp_confidence :: "real option"
  opp_data :: "payload option"

definition priority_map :: "string \<rightharpoonup> int" where
  "priority_map =
     [''sandwich_attack'' \<mapsto> 5,
      ''flashloan_arbitrage'' \<mapsto> 4,
      ''liquidation_arbitrage'' \<mapsto> 4,
      ''triangular_arbitrage'' \<mapsto> 3,
      ''direct_arbitrage'' \<mapsto> 2]"

text \<open>\<open>self.priority_map.get(x['strategy'], 0)\<close>\<close>

definition priority_of :: "string \<Rightarrow> int" where
  "priority_of strategy = (case priority_map strategy of None \<Rightarrow> 0 | Some p \<Rightarrow> p)"

text \<open>\<open>opp.get('confidence', 0)\<close>\<close>

definition get_confidence :: "opportunity \<Rightarrow> real" where
  "get_confidence opp = (case opp_confidence opp of None \<Rightarrow> 0 | Some c \<Rightarrow> c)"

text \<open>\<open>[opp for opp in opportunities if opp is not None]\<close>\<close>

primrec valid_opps :: "opportunity option list \<Rightarrow> opportunity list" where
  "valid_opps [] = []"
| "valid_opps (x # xs) = (case x of None \<Rightarrow> valid_opps xs | Some opp \<Rightarrow> opp # valid_opps xs)"

definition confident_opps :: "real \<Rightarrow> opportunity option list \<Rightarrow> opportunity list" where
  "confident_opps min_confidence opportunities =
     filter (\<lambda>opp. get_confidence opp \<ge> min_confidence) (valid_opps opportunities)"

text \<open>
  \<open>list.sort(key=..., reverse=True)\<close> first computes the key of every element (the
  first missing key raises) and then sorts stably, also under \<open>reverse=True\<close>:
  elements with equal keys keep their order.  \<open>with_keys\<close> pairs every element with
  its key; \<open>sort_desc\<close> is the stable descending sort on the keys.
\<close>

primrec with_keys :: "string \<Rightarrow> ('a \<Rightarrow> 'k option) \<Rightarrow> 'a list \<Rightarrow> py_error + ('k \<times> 'a) list" where
  "with_keys name f [] = Inr []"
| "with_keys name f (x # xs) =
     (case f x of
        None \<Rightarrow> Inl (KeyError name)
      | Some k \<Rightarrow>
          (case with_keys name f xs of
             Inl e \<Rightarrow> Inl e
           | Inr ys \<Rightarrow> Inr ((k, x) # ys)))"

definition sort_desc :: "(('k :: {linorder, uminus}) \<times> 'a) list \<Rightarrow> ('k \<times> 'a) list" where
  "sort_desc ps = sort_key (\<lambda>p. - fst p) ps"

definition similar_profit_threshold :: real where
  "similar_profit_threshold = 2.0"

text \<open>
  The profit of each sorted element is carried along with it, where the source reads
  \<open>opp['expected_profit_usd']\<close> again.  \<open>confident_opps[0]\<close> and \<open>similar_opps[0]\<close>
  raise \<open>IndexError\<close> on an empty list.
\<close>

definition similar_opps ::
    "real \<times> opportunity \<Rightarrow> (real \<times> opportunity) list \<Rightarrow> (real \<times> opportunity) list" where
  "similar_opps top_opp sorted_opps =
     filter (\<lambda>p. \<bar>fst p - fst top_opp\<bar> \<le> similar_profit_threshold) sorted_opps"

text \<open>The branch \<open>len(similar_opps) > 1\<close>: sort by priority, return the first.\<close>

definition choose_by_priority :: "(real \<times> opportunity) list \<Rightarrow> py_error + opportunity option" where
  "choose_by_priority similar =
     (case with_keys ''strategy'' (\<lambda>p. opp_strategy (snd p)) similar of
        Inl e \<Rightarrow> Inl e
      | Inr by_strategy \<Rightarrow>
          (case sort_desc (map (\<lambda>q. (priority_of (fst q), snd q)) by_strategy) of
             [] \<Rightarrow> Inl IndexError
           | best # _ \<Rightarrow> Inr (Some (snd (snd best)))))"

definition select_best_opportunity ::
    "real \<Rightarrow> opportunity option list \<Rightarrow> py_error + opportunity option" where
  "select_best_opportunity min_confidence opportunities =
     (if valid_opps opportunities = [] then Inr None
      else if confident_opps min_confidence opportunities = [] then Inr None
      else
        case with_keys ''expected_profit_usd'' opp_expected_profit_usd
               (confident_opps min_confidence opportunities) of
          Inl e \<Rightarrow> Inl e
        | Inr keyed \<Rightarrow>
            (case sort_desc keyed of
               [] \<Rightarrow> Inl IndexError
             | top_opp # rest \<Rightarrow>
                 if length (similar_opps top_opp (top_opp # rest)) > 1
                 then choose_by_priority (similar_opps top_opp (top_opp # rest))
                 else Inr (Some (snd top_opp))))"

text \<open>
  The words of the ranking rule, for comparison with the code: the best profit among
  the candidates, the band of candidates within the threshold of it, and the priority
  of a candidate.
\<close>

definition profit_of :: "opportunity \<Rightarrow> real" where
  "profit_of opp = (case opp_expected_profit_usd opp of None \<Rightarrow> 0 | Some p \<Rightarrow> p)"

definition opp_priority :: "opportunity \<Rightarrow> int" where
  "opp_priority opp = (case opp_strategy opp of None \<Rightarrow> 0 | Some s \<Rightarrow> priority_of s)"

definition top_profit :: "opportunity list \<Rightarrow> real" where
  "top_profit cands = Max (profit_of ` set cands)"

definition in_band :: "opportunity list \<Rightarrow> opportunity \<Rightarrow> bool" where
  "in_band cands opp \<longleftrightarrow>
     opp \<in> set cands \<and> \<bar>profit_of opp - top_profit cands\<bar> \<le> similar_profit_threshold"

definition complete_opp :: "opportunity \<Rightarrow> bool" where
  "complete_opp opp \<longleftrightarrow> opp_expected_profit_usd opp \<noteq> None \<and> opp_strategy opp \<noteq> None"

section \<open>Nonce sequencer: \<open>blockchain/nonce_manager.py\<close>\<close>

text \<open>
  The network's answer to \<open>get_transaction_count(address, 'pending')\<close> is an input:
  \<open>None\<close> when the call raises.  Every operation below runs under the manager's lock,
  so the operations of concurrent callers are a sequence of completed calls.
\<close>

record nonce_manager =
  current_nonce :: "int option"
  pending_nonces :: "int set"

definition sync_nonce :: "int option \<Rightarrow> nonce_manager \<Rightarrow> nonce_manager" where
  "sync_nonce tx_count s =
     (case tx_count of
        Some nonce \<Rightarrow> s\<lparr> current_nonce := Some nonce \<rparr>
      | None \<Rightarrow> s\<lparr> current_nonce := Some 0 \<rparr>)"

definition nonce_manager_init :: "int option \<Rightarrow> nonce_manager" where
  "nonce_manager_init tx_count = sync_nonce tx_count \<lparr> current_nonce = None, pending_nonces = {} \<rparr>"

text \<open>
  \<open>self.current_nonce += 1\<close> raises \<open>TypeError\<close> on \<open>None\<close>; the result \<open>None\<close>
  stands for that raise, which the preceding sync excludes.
\<close>

definition get_nonce :: "int option \<Rightarrow> nonce_manager \<Rightarrow> int option \<times> nonce_manager" where
  "get_nonce tx_count s =
     (let s1 = (if current_nonce s = None then sync_nonce tx_count s else s)
      in case current_nonce s1 of
           None \<Rightarrow> (None, s1)
         | Some nonce \<Rightarrow>
             (Some nonce,
              s1\<lparr> current_nonce := Some (nonce + 1),
                  pending_nonces := insert nonce (pending_nonces s1) \<rparr>))"

definition confirm_nonce :: "int \<Rightarrow> nonce_manager \<Rightarrow> nonce_manager" where
  "confirm_nonce nonce s =
     (if nonce \<in> pending_nonces s
      then s\<lparr> pending_nonces := pending_nonces s - {nonce} \<rparr>
      else s)"

definition reset_nonce :: "int option \<Rightarrow> nonce_manager \<Rightarrow> nonce_manager" where
  "reset_nonce tx_count s = (sync_nonce tx_count s)\<lparr> pending_nonces := {} \<rparr>"

definition force_sync :: "int option \<Rightarrow> nonce_manager \<Rightarrow> nonce_manager" where
  "force_sync tx_count s = sync_nonce tx_count s"

definition get_pending_count :: "nonce_manager \<Rightarrow> nat" where
  "get_pending_count s = card (pending_nonces s)"

text \<open>
  Consecutive completed calls of \<open>get_nonce\<close>, one network answer per call (read only
  when the counter is unset): the nonces returned, in order, and the final state.  A
  call that raises ends the sequence.
\<close>

primrec get_nonces :: "int option list \<Rightarrow> nonce_manager \<Rightarrow> int list \<times> nonce_manager" where
  "get_nonces [] s = ([], s)"
| "get_nonces (tx_count # tx_counts) s =
     (case get_nonce tx_count s of
        (None, s1) \<Rightarrow> ([], s1)
      | (Some nonce, s1) \<Rightarrow>
          (case get_nonces tx_counts s1 of (nonces, s2) \<Rightarrow> (nonce # nonces, s2)))"

text \<open>
  A history of the ledger: each operation with the network answer it would read.
  \<open>nonce_run\<close> returns the nonces issued so far (latest first) and the state.
\<close>

datatype nonce_op = GetNonce | ConfirmNonce int | ResetNonce | ForceSync

fun nonce_step :: "int list \<times> nonce_manager \<Rightarrow> int option \<times> nonce_op \<Rightarrow> int list \<times> nonce_manager" where
  "nonce_step (issued, s) (tx_count, GetNonce) =
     (case get_nonce tx_count s of
        (Some n, s1) \<Rightarrow> (n # issued, s1)
      | (None, s1) \<Rightarrow> (issued, s1))"
| "nonce_step (issued, s) (tx_count, ConfirmNonce n) = (issued, confirm_nonce n s)"
| "nonce_step (issued, s) (tx_count, ResetNonce) = (issued, reset_nonce tx_count s)"
| "nonce_step (issued, s) (tx_count, ForceSync) = (issued, force_sync tx_count s)"

definition nonce_run :: "nonce_manager \<Rightarrow> (int option \<times> nonce_op) list \<Rightarrow> int list \<times> nonce_manager" where
  "nonce_run s ops = foldl nonce_step ([], s) ops"

definition is_resync :: "nonce_op \<Rightarrow> bool" where
  "is_resync op = (op = ResetNonce \<or> op = ForceSync)"

section \<open>Endpoint failover manager: \<open>utils/rpc_manager.py\<close>\<close>


















section \<open>Batched read aggregator: \<open>utils/multicall.py\<close>\<close>

text \<open>
  A call is a dictionary read at \<open>'target'\<close> and \<open>'call_data'\<close>.  Two collaborators
  are outside the repository and are fields of the aggregator here:
  \<open>Web3.to_checksum_address\<close> (\<open>None\<close> when it raises on a malformed address) and the
  \<open>aggregate3\<close> function of the Multicall3 contract, reached through one remote call
  per chunk (\<open>None\<close> when that call raises: a transport error or a revert).
\<close>

type_synonym bytes = "nat list"

record call =
  target :: "string option"
  call_data :: "bytes option"

record mc_call =
  mc_target :: string
  allowFailure :: bool
  callData :: bytes

record multicall =
  chunk_size :: int
  to_checksum_address :: "string \<Rightarrow> string option"
  aggregate3 :: "mc_call list \<Rightarrow> (bool \<times> bytes) list option"

definition multicall_call :: "multicall \<Rightarrow> bool \<Rightarrow> call \<Rightarrow> mc_call option" where
  "multicall_call mc allow_failure c =
     (case target c of
        None \<Rightarrow> None
      | Some t \<Rightarrow>
          (case to_checksum_address mc t of
             None \<Rightarrow> None
           | Some a \<Rightarrow>
               (case call_data c of
                  None \<Rightarrow> None
                | Some d \<Rightarrow> Some \<lparr> mc_target = a, allowFailure = allow_failure, callData = d \<rparr>)))"

text \<open>\<open>if success and return_data\<close>: empty bytes are falsy.\<close>

definition decode_result :: "bool \<times> bytes \<Rightarrow> bytes option" where
  "decode_result result =
     (if fst result \<and> snd result \<noteq> [] then Some (snd result) else None)"

definition execute_chunk :: "multicall \<Rightarrow> call list \<Rightarrow> bool \<Rightarrow> bytes option list" where
  "execute_chunk mc calls allow_failure =
     (case those (map (multicall_call mc allow_failure) calls) of
        None \<Rightarrow> replicate (length calls) None
      | Some multicall_calls \<Rightarrow>
          (case aggregate3 mc multicall_calls of
             None \<Rightarrow> replicate (length calls) None
           | Some results \<Rightarrow> map decode_result results))"








section \<open>Gas pricer: \<open>ml/tip_optimizer.py\<close>\<close>

text \<open>
  The regression model is outside the repository: \<open>predict\<close> is a field, \<open>None\<close> when
  it raises (as an unfitted model does).
\<close>

record tip_optimizer =
  min_tip_gwei :: real
  max_tip_gwei :: real
  model :: "(real \<Rightarrow> int \<Rightarrow> real option) option"
  tip_history :: "(real \<times> int) list"

definition strategy_map :: "string \<rightharpoonup> int" where
  "strategy_map =
     [''direct_arbitrage'' \<mapsto> 1,
      ''triangular_arbitrage'' \<mapsto> 2,
      ''flashloan_arbitrage'' \<mapsto> 3,
      ''liquidation_arbitrage'' \<mapsto> 4,
      ''sandwich_attack'' \<mapsto> 5]"

definition ml_predict_tip :: "tip_optimizer \<Rightarrow> real \<Rightarrow> string \<Rightarrow> real" where
  "ml_predict_tip t expected_profit_usd strategy =
     (let strategy_encoded = (case strategy_map strategy of None \<Rightarrow> 0 | Some c \<Rightarrow> c)
      in case model t of
           None \<Rightarrow> 0
         | Some predict \<Rightarrow>
             (case predict expected_profit_usd strategy_encoded of
                None \<Rightarrow> 0
              | Some predicted_tip \<Rightarrow> max 0 predicted_tip))"

text \<open>\<open>(expected_profit_usd * 0.10) / 0.0000008\<close>\<close>

definition max_acceptable_tip_gwei :: "real \<Rightarrow> real" where
  "max_acceptable_tip_gwei expected_profit_usd = (expected_profit_usd * 0.10) / 0.0000008"

text \<open>The sandwich step: \<open>opportunity['data']\<close> raises when the payload is missing.\<close>

definition sandwich_tip :: "opportunity \<Rightarrow> string \<Rightarrow> real \<Rightarrow> py_error + real" where
  "sandwich_tip opp strategy optimal_tip_gwei =
     (if strategy = ''sandwich_attack''
      then
        (case opp_data opp of
           None \<Rightarrow> Inl (KeyError ''data'')
         | Some d \<Rightarrow>
             let victim_gas_gwei = (case victim_gas_price_gwei d of None \<Rightarrow> 50 | Some g \<Rightarrow> g)
             in Inr (max optimal_tip_gwei (victim_gas_gwei * 1.125)))
      else Inr optimal_tip_gwei)"

definition profit_scaled_tip :: "real \<Rightarrow> real \<Rightarrow> real" where
  "profit_scaled_tip expected_profit_usd optimal_tip_gwei =
     (if expected_profit_usd > 50 then optimal_tip_gwei * 1.5
      else if expected_profit_usd > 100 then optimal_tip_gwei * 2.0
      else optimal_tip_gwei)"

definition ml_blended_tip :: "tip_optimizer \<Rightarrow> real \<Rightarrow> string \<Rightarrow> real \<Rightarrow> real" where
  "ml_blended_tip t expected_profit_usd strategy optimal_tip_gwei =
     (if model t \<noteq> None \<and> length (tip_history t) > 10
      then
        let ml_tip_gwei = ml_predict_tip t expected_profit_usd strategy
        in if ml_tip_gwei > 0 then (optimal_tip_gwei * 0.6) + (ml_tip_gwei * 0.4)
           else optimal_tip_gwei
      else optimal_tip_gwei)"

definition enforce_constraints :: "tip_optimizer \<Rightarrow> real \<Rightarrow> real \<Rightarrow> real" where
  "enforce_constraints t expected_profit_usd optimal_tip_gwei =
     min (max (min_tip_gwei t) (min optimal_tip_gwei (max_tip_gwei t)))
         (max_acceptable_tip_gwei expected_profit_usd)"

text \<open>The body of the \<open>try\<close>, up to the conversion to wei.\<close>

definition optimal_tip_gwei :: "tip_optimizer \<Rightarrow> opportunity \<Rightarrow> py_error + real" where
  "optimal_tip_gwei t opp =
     (case opp_expected_profit_usd opp of
        None \<Rightarrow> Inl (KeyError ''expected_profit_usd'')
      | Some expected_profit_usd \<Rightarrow>
          (case opp_strategy opp of
             None \<Rightarrow> Inl (KeyError ''strategy'')
           | Some strategy \<Rightarrow>
               (case sandwich_tip opp strategy (min_tip_gwei t) of
                  Inl e \<Rightarrow> Inl e
                | Inr tip \<Rightarrow>
                    Inr (enforce_constraints t expected_profit_usd
                           (ml_blended_tip t expected_profit_usd strategy
                              (profit_scaled_tip expected_profit_usd tip))))))"

definition gwei_to_wei :: "real \<Rightarrow> int" where
  "gwei_to_wei g = py_int (g * 1000000000)"

definition calculate_optimal_tip :: "tip_optimizer \<Rightarrow> opportunity \<Rightarrow> int" where
  "calculate_optimal_tip t opp =
     (case optimal_tip_gwei t opp of
        Inr tip \<Rightarrow> gwei_to_wei tip
      | Inl e \<Rightarrow> gwei_to_wei (min_tip_gwei t))"

section \<open>Cache: \<open>utils/data_cache.py\<close>\<close>

text \<open>
  The table \<open>cache\<close> has \<open>key\<close> as its primary key, so it is a map from keys to rows.
  The connection is \<open>None\<close> when the database could not be opened; every method
  catches the exception that follows.  \<open>json.dumps\<close> and \<open>json.loads\<close> are parameters
  (\<open>None\<close> when they raise).  The column \<open>ttl\<close> is an SQLite \<open>INTEGER\<close>, a signed
  64-bit integer: the \<open>INSERT\<close> of \<open>set\<close> raises \<open>OverflowError\<close> when the Python
  integer bound to it does not fit, and \<open>set\<close> catches that too, having stored nothing.
\<close>

record cache_row =
  row_value :: string
  row_timestamp :: real
  row_ttl :: int

record data_cache =
  conn :: "(string \<rightharpoonup> cache_row) option"

definition sqlite_integer :: "int \<Rightarrow> bool" where
  "sqlite_integer n \<longleftrightarrow> - 9223372036854775808 \<le> n \<and> n \<le> 9223372036854775807"

definition cache_set ::
    "('v \<Rightarrow> string option) \<Rightarrow> real \<Rightarrow> string \<Rightarrow> 'v \<Rightarrow> int \<Rightarrow> data_cache \<Rightarrow> data_cache" where
  "cache_set dumps now key v ttl c =
     (case dumps v of
        None \<Rightarrow> c
      | Some value_json \<Rightarrow>
          (case conn c of
             None \<Rightarrow> c
           | Some table \<Rightarrow>
               if sqlite_integer ttl
               then c\<lparr> conn := Some (table(key \<mapsto>
                       \<lparr> row_value = value_json, row_timestamp = now, row_ttl = ttl \<rparr>)) \<rparr>
               else c))"

definition cache_delete :: "string \<Rightarrow> data_cache \<Rightarrow> data_cache" where
  "cache_delete key c =
     (case conn c of
        None \<Rightarrow> c
      | Some table \<Rightarrow> c\<lparr> conn := Some (table(key := None)) \<rparr>)"

definition cache_get ::
    "(string \<Rightarrow> 'v option) \<Rightarrow> real \<Rightarrow> string \<Rightarrow> data_cache \<Rightarrow> 'v option \<times> data_cache" where
  "cache_get loads now key c =
     (case conn c of
        None \<Rightarrow> (None, c)
      | Some table \<Rightarrow>
          (case table key of
             None \<Rightarrow> (None, c)
           | Some row \<Rightarrow>
               let age = now - row_timestamp row
               in if age > real_of_int (row_ttl row) then (None, cache_delete key c)
                  else (loads (row_value row), c)))"

text \<open>Whether the table holds a row for a key.\<close>

definition has_row :: "data_cache \<Rightarrow> string \<Rightarrow> bool" where
  "has_row c key = (case conn c of None \<Rightarrow> False | Some table \<Rightarrow> table key \<noteq> None)"

section \<open>Example states\<close>

text \<open>A governor that tripped on the day before the clock readings used below.\<close>

definition tripped_yesterday :: kill_switch where
  "tripped_yesterday =
     \<lparr> max_daily_loss_usd = 100, max_failed_tx = 5, auto_kill_enabled = True,
       alert_system = True, triggered = True,
       trigger_reason = Some (DailyLossLimit 120), trigger_time = Some 4000,
       daily_loss = 120, failed_tx_count = 3, last_reset_day = 0,
       alerts = [CriticalAlert (DailyLossLimit 120)] \<rparr>"

text \<open>
  Opportunities of the ranking example: \<open>A\<close> (profit 50, confidence 0.8, priority 5,
  a sandwich) and \<open>B\<close> (profit 51, confidence 0.9, priority 2, a direct arbitrage), and
  one with a large profit and a confidence below the threshold.
\<close>

definition opp_A :: opportunity where
  "opp_A = \<lparr> opp_strategy = Some ''sandwich_attack'', opp_expected_profit_usd = Some 50,
             opp_confidence = Some 0.8, opp_data = Some \<lparr> victim_gas_price_gwei = Some 40 \<rparr> \<rparr>"

definition opp_B :: opportunity where
  "opp_B = \<lparr> opp_strategy = Some ''direct_arbitrage'', opp_expected_profit_usd = Some 51,
             opp_confidence = Some 0.9, opp_data = None \<rparr>"

definition opp_unsure :: opportunity where
  "opp_unsure = \<lparr> opp_strategy = Some ''flashloan_arbitrage'',
                  opp_expected_profit_usd = Some 1000,
                  opp_confidence = Some 0.5, opp_data = None \<rparr>"

text \<open>
  An optimizer with a minimum tip of 30 gwei, a maximum of 500 gwei and no trained
  model, and a direct arbitrage whose expected profit of 0.0001 USD caps the tip at
  12.5 gwei.
\<close>

definition tip_cfg :: tip_optimizer where
  "tip_cfg = \<lparr> min_tip_gwei = 30, max_tip_gwei = 500, model = None, tip_history = [] \<rparr>"

definition opp_tiny :: opportunity where
  "opp_tiny = \<lparr> opp_strategy = Some ''direct_arbitrage'',
                opp_expected_profit_usd = Some (1 / 10000),
                opp_confidence = Some 0.9, opp_data = None \<rparr>"

text \<open>A sandwich opportunity that lacks its payload.\<close>

definition opp_bare :: opportunity where
  "opp_bare = \<lparr> opp_strategy = Some ''sandwich_attack'', opp_expected_profit_usd = Some 80,
                opp_confidence = Some 0.9, opp_data = None \<rparr>"

text \<open>An open cache with an empty table; values are stored as their own JSON text.\<close>

definition empty_cache :: data_cache where
  "empty_cache = \<lparr> conn = Some Map.empty \<rparr>"











section \<open>Properties of the risk governor\<close>

lemma reset_daily_counters_frame:
  "triggered (reset_daily_counters now s) = triggered s"
  "trigger_reason (reset_daily_counters now s) = trigger_reason s"
  "trigger_time (reset_daily_counters now s) = trigger_time s"
  "max_daily_loss_usd (reset_daily_counters now s) = max_daily_loss_usd s"
  "max_failed_tx (reset_daily_counters now s) = max_failed_tx s"
  "auto_kill_enabled (reset_daily_counters now s) = auto_kill_enabled s"
  "alert_system (reset_daily_counters now s) = alert_system s"
  "alerts (reset_daily_counters now s) = alerts s"
  by (simp_all add: reset_daily_counters_def Let_def)

lemma reset_daily_counters_same_day:
  "get_current_day now \<le> last_reset_day s \<Longrightarrow> reset_daily_counters now s = s"
  by (simp add: reset_daily_counters_def Let_def)


lemma trigger_frame:
  "daily_loss (trigger now r s) = daily_loss s"
  "failed_tx_count (trigger now r s) = failed_tx_count s"
  "last_reset_day (trigger now r s) = last_reset_day s"
  "max_daily_loss_usd (trigger now r s) = max_daily_loss_usd s"
  "auto_kill_enabled (trigger now r s) = auto_kill_enabled s"
  by (simp_all add: trigger_def Let_def)

lemma trigger_latched:
  "triggered s \<Longrightarrow> trigger now r s = s"
  by (simp add: trigger_def)

lemma trigger_enabled:
  "auto_kill_enabled s \<Longrightarrow> triggered (trigger now r s)"
  by (simp add: trigger_def Let_def)

lemma trigger_disabled:
  "\<not> auto_kill_enabled s \<Longrightarrow> trigger now r s = s"
  by (simp add: trigger_def)

lemma record_loss_daily_loss:
  "daily_loss (record_loss now l s) = daily_loss (reset_daily_counters now s) + \<bar>l\<bar>"
  by (simp add: record_loss_def Let_def trigger_frame)

lemma record_loss_last_reset_day:
  "last_reset_day (record_loss now l s) = last_reset_day (reset_daily_counters now s)"
  by (simp add: record_loss_def Let_def trigger_frame)

lemma ks_step_latched:
  assumes "triggered s" and "snd x \<noteq> Reset"
  shows "triggered (ks_step s x) \<and> trigger_reason (ks_step s x) = trigger_reason s
         \<and> trigger_time (ks_step s x) = trigger_time s"
proof (cases x)
  case (Pair now op)
  with assms show ?thesis
    by (cases op)
       (simp_all add: record_loss_def record_failed_transaction_def manual_trigger_def
          check_daily_loss_def get_status_def Let_def trigger_latched reset_daily_counters_frame)
qed

lemma ks_run_latched:
  "triggered s \<Longrightarrow> Reset \<notin> snd ` set ops \<Longrightarrow>
   triggered (ks_run s ops) \<and> trigger_reason (ks_run s ops) = trigger_reason s
   \<and> trigger_time (ks_run s ops) = trigger_time s"
  unfolding ks_run_def
proof (induction ops arbitrary: s)
  case Nil
  then show ?case by simp
next
  case (Cons x ops)
  have "snd x \<noteq> Reset" using Cons.prems(2) by auto
  from ks_step_latched[OF Cons.prems(1) this] Cons.IH[of "ks_step s x"] Cons.prems(2)
  show ?case by simp
qed

lemma record_losses_same_day:
  "\<forall>x\<in>set ls. get_current_day (fst x) \<le> last_reset_day s \<Longrightarrow>
   daily_loss (ks_run s (map (\<lambda>x. (fst x, RecordLoss (snd x))) ls)) = daily_loss s + (\<Sum>x\<leftarrow>ls. \<bar>snd x\<bar>)
   \<and> last_reset_day (ks_run s (map (\<lambda>x. (fst x, RecordLoss (snd x))) ls)) = last_reset_day s"
  unfolding ks_run_def
proof (induction ls arbitrary: s)
  case Nil
  then show ?case by simp
next
  case (Cons x ls)
  have d: "get_current_day (fst x) \<le> last_reset_day s" using Cons.prems by simp
  have 1: "daily_loss (record_loss (fst x) (snd x) s) = daily_loss s + \<bar>snd x\<bar>"
    by (simp add: record_loss_daily_loss reset_daily_counters_same_day[OF d])
  have 2: "last_reset_day (record_loss (fst x) (snd x) s) = last_reset_day s"
    by (simp add: record_loss_last_reset_day reset_daily_counters_same_day[OF d])
  from Cons.IH[of "record_loss (fst x) (snd x) s"] Cons.prems 1 2
  show ?case by simp
qed

text \<open>
  Claim C10.  \<open>record_loss\<close> adds the absolute value of its argument: while the day
  index has not passed the stored day, one call adds exactly \<open>\<bar>loss\<bar>\<close> to the
  accumulated loss, so the loss does not go down, a negative argument makes it strictly
  larger, and it does not go down over any sequence of \<open>record_loss\<close> calls of that day.
\<close>

theorem record_loss_accumulates_absolute_value:
  "(get_current_day now \<le> last_reset_day s \<longrightarrow>
      daily_loss (record_loss now l s) = daily_loss s + \<bar>l\<bar>
      \<and> daily_loss s \<le> daily_loss (record_loss now l s)
      \<and> (l < 0 \<longrightarrow> daily_loss s < daily_loss (record_loss now l s)))
   \<and> ((\<forall>x\<in>set ls. get_current_day (fst x) \<le> last_reset_day s) \<longrightarrow>
      daily_loss s \<le> daily_loss (ks_run s (map (\<lambda>x. (fst x, RecordLoss (snd x))) ls)))"
proof -
  have "(\<Sum>x\<leftarrow>ls. \<bar>snd x\<bar>) \<ge> 0" by (induction ls) auto
  then show ?thesis
    using record_losses_same_day[of ls s]
    by (auto simp: record_loss_daily_loss reset_daily_counters_same_day)
qed

theorem record_loss_accumulates_absolute_value_witness:
  "get_current_day 100 \<le> last_reset_day (kill_switch_init 0 100 5 True True)
   \<and> (-5 :: real) < 0
   \<and> daily_loss (kill_switch_init 0 100 5 True True) = 0
   \<and> daily_loss (record_loss 100 (-5) (kill_switch_init 0 100 5 True True)) = 5
   \<and> daily_loss (kill_switch_init 0 100 5 True True)
       < daily_loss (record_loss 100 (-5) (kill_switch_init 0 100 5 True True))
   \<and> get_current_day 10 \<le> last_reset_day (kill_switch_init 0 100 5 True True)
   \<and> get_current_day 20 \<le> last_reset_day (kill_switch_init 0 100 5 True True)
   \<and> get_current_day 30 \<le> last_reset_day (kill_switch_init 0 100 5 True True)
   \<and> daily_loss (kill_switch_init 0 100 5 True True)
       \<le> daily_loss (ks_run (kill_switch_init 0 100 5 True True)
            [(10, RecordLoss (-5)), (20, RecordLoss 0), (30, RecordLoss 7)])"
  using record_loss_accumulates_absolute_value[of 100 "kill_switch_init 0 100 5 True True" "-5"
      "[(10, -5), (20, 0), (30, 7)]"]
  by (simp add: kill_switch_init_def get_current_day_def py_int_def)





text \<open>
  Claim C4, as amended.  With the automatic kill switch enabled, a \<open>record_loss\<close>
  call that brings the accumulated loss to the ceiling or above leaves the governor
  tripped, and so does a manual trigger; with it disabled, a trigger request is
  ignored.  Once tripped, the governor stays tripped, with the same reason and time,
  under every sequence of operations without a manual \<open>reset\<close>; \<open>reset\<close> untrips.
\<close>
theorem trip_on_loss_and_latch:
  "(auto_kill_enabled s \<and> max_daily_loss_usd s \<le> daily_loss (record_loss now l s)
      \<longrightarrow> triggered (record_loss now l s))
   \<and> (auto_kill_enabled s \<longrightarrow> triggered (manual_trigger now r s))
   \<and> (\<not> auto_kill_enabled s \<and> \<not> triggered s
      \<longrightarrow> \<not> triggered (record_loss now l s) \<and> \<not> triggered (manual_trigger now r s))
   \<and> (triggered s \<and> Reset \<notin> snd ` set ops
      \<longrightarrow> triggered (ks_run s ops)
          \<and> trigger_reason (ks_run s ops) = trigger_reason s
          \<and> trigger_time (ks_run s ops) = trigger_time s)
   \<and> \<not> triggered (reset s)"
proof -
  have a: "auto_kill_enabled s \<and> max_daily_loss_usd s \<le> daily_loss (record_loss now l s)
      \<longrightarrow> triggered (record_loss now l s)"
    using record_loss_daily_loss[of now l s]
    by (simp add: record_loss_def Let_def trigger_enabled reset_daily_counters_frame)
  have b: "auto_kill_enabled s \<longrightarrow> triggered (manual_trigger now r s)"
    by (simp add: manual_trigger_def trigger_enabled)
  have c: "\<not> auto_kill_enabled s \<and> \<not> triggered s
      \<longrightarrow> \<not> triggered (record_loss now l s) \<and> \<not> triggered (manual_trigger now r s)"
    by (simp add: record_loss_def manual_trigger_def Let_def trigger_disabled
        reset_daily_counters_frame)
  have d: "\<not> triggered (reset s)" by (simp add: reset_def)
  from a b c d ks_run_latched[of s ops] show ?thesis by blast
qed

theorem trip_on_loss_and_latch_witness:
  "auto_kill_enabled (kill_switch_init 0 100 5 True True)
   \<and> max_daily_loss_usd (kill_switch_init 0 100 5 True True)
       \<le> daily_loss (record_loss 10 150 (kill_switch_init 0 100 5 True True))
   \<and> triggered (record_loss 10 150 (kill_switch_init 0 100 5 True True))
   \<and> triggered (manual_trigger 10 ''operator'' (kill_switch_init 0 100 5 True True))
   \<and> \<not> auto_kill_enabled (kill_switch_init 0 100 5 False True)
   \<and> \<not> triggered (kill_switch_init 0 100 5 False True)
   \<and> \<not> triggered (manual_trigger 10 ''operator'' (kill_switch_init 0 100 5 False True))
   \<and> triggered tripped_yesterday
   \<and> Reset \<notin> snd ` set [(90000, RecordLoss 1), (90001, RecordFailedTransaction), (90002, GetStatus)]
   \<and> triggered (ks_run tripped_yesterday
        [(90000, RecordLoss 1), (90001, RecordFailedTransaction), (90002, GetStatus)])
   \<and> trigger_reason (ks_run tripped_yesterday
        [(90000, RecordLoss 1), (90001, RecordFailedTransaction), (90002, GetStatus)])
       = Some (DailyLossLimit 120)"
  using trip_on_loss_and_latch[of "kill_switch_init 0 100 5 True True" 10 150 "''operator''" "[]"]
    trip_on_loss_and_latch[of "kill_switch_init 0 100 5 False True" 10 150 "''operator''" "[]"]
    trip_on_loss_and_latch[of tripped_yesterday 10 150 "''operator''"
      "[(90000, RecordLoss 1), (90001, RecordFailedTransaction), (90002, GetStatus)]"]
  by (simp add: kill_switch_init_def tripped_yesterday_def record_loss_daily_loss
      reset_daily_counters_def get_current_day_def py_int_def Let_def)

text \<open>
  Claim C4 as stated fails when the automatic kill switch is disabled: a loss of 150
  against a ceiling of 100 leaves the governor armed.
\<close>

theorem trip_on_loss_counterexample:
  "max_daily_loss_usd (kill_switch_init 0 100 5 False True)
     \<le> daily_loss (record_loss 10 150 (kill_switch_init 0 100 5 False True))
   \<and> \<not> triggered (record_loss 10 150 (kill_switch_init 0 100 5 False True))"
  by (simp add: kill_switch_init_def record_loss_def reset_daily_counters_def trigger_def
      get_current_day_def py_int_def Let_def)

section \<open>Properties of the nonce sequencer\<close>

lemma get_nonce_Some:
  "current_nonce s = Some k \<Longrightarrow>
   get_nonce c s = (Some k, s\<lparr> current_nonce := Some (k + 1),
                               pending_nonces := insert k (pending_nonces s) \<rparr>)"
  by (simp add: get_nonce_def)

lemma get_nonce_returns:
  "\<exists>n s'. get_nonce c s = (Some n, s') \<and> current_nonce s' = Some (n + 1)
     \<and> pending_nonces s' = insert n (pending_nonces s)"
  by (cases "current_nonce s"; cases c) (simp_all add: get_nonce_def sync_nonce_def)

lemma get_nonces_from:
  "current_nonce s = Some k \<Longrightarrow>
   get_nonces cs s =
     (map (\<lambda>i. k + int i) [0..<length cs],
      s\<lparr> current_nonce := Some (k + int (length cs)),
         pending_nonces := pending_nonces s \<union> {k ..< k + int (length cs)} \<rparr>)"
proof (induction cs arbitrary: s k)
  case Nil
  then show ?case by simp
next
  case (Cons c cs)
  let ?s1 = "s\<lparr> current_nonce := Some (k + 1), pending_nonces := insert k (pending_nonces s) \<rparr>"
  have g: "get_nonce c s = (Some k, ?s1)" using Cons.prems by (rule get_nonce_Some)
  have c1: "current_nonce ?s1 = Some (k + 1)" by simp
  have m: "map (\<lambda>i. k + int i) [0..<Suc (length cs)]
           = k # map (\<lambda>i. k + 1 + int i) [0..<length cs]"
    by (simp add: map_upt_Suc del: upt_Suc) 
  have u: "insert k (pending_nonces s) \<union> {k + 1 ..< k + 1 + int (length cs)}
           = pending_nonces s \<union> {k ..< k + int (Suc (length cs))}"
    by auto
  show ?case
    using Cons.IH[OF c1] g m u by (simp add: add.assoc del: upt_Suc)
qed

lemma consecutive_ints:
  "set (map (\<lambda>i. k + int i) [0..<n]) = {k ..< k + int n}"
  "distinct (map (\<lambda>i. k + int i) [0..<n])"
  "sorted_wrt (<) (map (\<lambda>i. k + int i) [0..<n])"
proof -
  show "set (map (\<lambda>i. k + int i) [0..<n]) = {k ..< k + int n}"
  proof (intro set_eqI iffI)
    fix x assume "x \<in> set (map (\<lambda>i. k + int i) [0..<n])"
    then show "x \<in> {k ..< k + int n}" by auto
  next
    fix x assume x: "x \<in> {k ..< k + int n}"
    then have "nat (x - k) < n" "x = k + int (nat (x - k))" by auto
    then show "x \<in> set (map (\<lambda>i. k + int i) [0..<n])"
      by (metis (mono_tags, lifting) atLeastLessThan_iff image_eqI le0 list.set_map set_upt)
  qed
  show "distinct (map (\<lambda>i. k + int i) [0..<n])"
    by (simp add: distinct_map inj_on_def)
  show "sorted_wrt (<) (map (\<lambda>i. k + int i) [0..<n])"
    by (simp add: sorted_wrt_map sorted_wrt_iff_nth_less)
qed


lemma nonce_step_subset:
  "nonce_step (iss, s) x = (iss1, s1) \<Longrightarrow>
   set iss \<subseteq> set iss1 \<and> pending_nonces s1 \<subseteq> pending_nonces s \<union> set iss1"
proof (cases x)
  case (Pair c op)
  assume a: "nonce_step (iss, s) x = (iss1, s1)"
  show ?thesis
  proof (cases op)
    case GetNonce
    obtain n s' where g: "get_nonce c s = (Some n, s')"
      "pending_nonces s' = insert n (pending_nonces s)"
      using get_nonce_returns[of c s] by auto
    with a Pair GetNonce show ?thesis by auto
  next
    case (ConfirmNonce n)
    with a Pair show ?thesis by (auto simp: confirm_nonce_def split: if_splits)
  next
    case ResetNonce
    with a Pair show ?thesis by (auto simp: reset_nonce_def)
  next
    case ForceSync
    with a Pair show ?thesis by (auto simp: force_sync_def sync_nonce_def split: option.splits)
  qed
qed

lemma nonce_steps_subset:
  "set iss \<subseteq> set (fst (foldl nonce_step (iss, s) ops))
   \<and> pending_nonces (snd (foldl nonce_step (iss, s) ops))
       \<subseteq> pending_nonces s \<union> set (fst (foldl nonce_step (iss, s) ops))"
proof (induction ops arbitrary: iss s)
  case Nil
  then show ?case by simp
next
  case (Cons x ops)
  obtain iss1 s1 where st: "nonce_step (iss, s) x = (iss1, s1)" by (cases "nonce_step (iss, s) x")
  from nonce_step_subset[OF st] Cons.IH[of iss1 s1] st
  show ?case by auto
qed

lemma nonce_steps_no_resync:
  assumes "current_nonce s = Some k" and "\<forall>x\<in>set ops. \<not> is_resync (snd x)"
  shows "\<exists>k'\<ge>k. current_nonce (snd (foldl nonce_step (iss, s) ops)) = Some k'
           \<and> fst (foldl nonce_step (iss, s) ops)
               = rev (map (\<lambda>i. k + int i) [0..<nat (k' - k)]) @ iss"
  using assms
proof (induction ops arbitrary: iss s k)
  case Nil
  then show ?case by auto
next
  case (Cons x ops)
  obtain c op where x: "x = (c, op)" by (cases x)
  have nr: "\<forall>y\<in>set ops. \<not> is_resync (snd y)" using Cons.prems(2) by simp
  show ?case
  proof (cases op)
    case GetNonce
    let ?s1 = "s\<lparr> current_nonce := Some (k + 1), pending_nonces := insert k (pending_nonces s) \<rparr>"
    have st: "nonce_step (iss, s) x = (k # iss, ?s1)"
      using x GetNonce get_nonce_Some[OF Cons.prems(1), of c] by simp
    have "current_nonce ?s1 = Some (k + 1)" by simp
    from Cons.IH[OF this nr, of "k # iss"] obtain k' where k':
      "k + 1 \<le> k'" "current_nonce (snd (foldl nonce_step (k # iss, ?s1) ops)) = Some k'"
      "fst (foldl nonce_step (k # iss, ?s1) ops)
         = rev (map (\<lambda>i. k + 1 + int i) [0..<nat (k' - (k + 1))]) @ k # iss"
      by auto
    have n: "nat (k' - k) = Suc (nat (k' - (k + 1)))" using k'(1) by auto
    have "map (\<lambda>i. k + int i) [0..<nat (k' - k)]
          = k # map (\<lambda>i. k + 1 + int i) [0..<nat (k' - (k + 1))]"
      unfolding n by (simp add: map_upt_Suc add.assoc del: upt_Suc)
    then have "rev (map (\<lambda>i. k + int i) [0..<nat (k' - k)]) @ iss
          = rev (map (\<lambda>i. k + 1 + int i) [0..<nat (k' - (k + 1))]) @ k # iss"
      by simp
    with k' st show ?thesis
      by (intro exI[of _ k']) simp
  next
    case (ConfirmNonce n)
    have st: "nonce_step (iss, s) x = (iss, confirm_nonce n s)" using x ConfirmNonce by simp
    have "current_nonce (confirm_nonce n s) = Some k"
      using Cons.prems(1) by (simp add: confirm_nonce_def)
    from Cons.IH[OF this nr, of iss] st show ?thesis by simp
  next
    case ResetNonce
    with Cons.prems(2) x show ?thesis by (simp add: is_resync_def)
  next
    case ForceSync
    with Cons.prems(2) x show ?thesis by (simp add: is_resync_def)
  qed
qed

text \<open>
  Claim C2.  From a ledger whose counter is \<open>k\<close>, \<open>N\<close> consecutive completed calls of
  \<open>get_nonce\<close> return \<open>k, k + 1, \<dots>, k + N - 1\<close> in this order (so the set of returned
  nonces is exactly that interval, without duplicates and strictly increasing), leave
  the counter at \<open>k + N\<close> and add every returned nonce to the pending set.  Over any
  history without a resync (\<open>reset_nonce\<close>, \<open>force_sync\<close>) the counter does not
  decrease and the issued nonces are exactly those between the old and the new counter,
  each once.  Over every history the pending set holds only nonces that were pending
  at its start or issued in it; a confirmed nonce leaves the pending set and a reset
  clears it.
\<close>

theorem nonce_sequencing:
  "(current_nonce s = Some k \<longrightarrow>
      fst (get_nonces cs s) = map (\<lambda>i. k + int i) [0..<length cs]
      \<and> set (fst (get_nonces cs s)) = {k ..< k + int (length cs)}
      \<and> distinct (fst (get_nonces cs s))
      \<and> sorted_wrt (<) (fst (get_nonces cs s))
      \<and> current_nonce (snd (get_nonces cs s)) = Some (k + int (length cs))
      \<and> pending_nonces (snd (get_nonces cs s))
          = pending_nonces s \<union> {k ..< k + int (length cs)})
   \<and> (current_nonce s = Some k \<and> (\<forall>x\<in>set ops. \<not> is_resync (snd x)) \<longrightarrow>
        (\<exists>k'\<ge>k. current_nonce (snd (nonce_run s ops)) = Some k'
           \<and> set (fst (nonce_run s ops)) = {k ..< k'}
           \<and> distinct (fst (nonce_run s ops))))
   \<and> pending_nonces (snd (nonce_run s ops))
        \<subseteq> pending_nonces s \<union> set (fst (nonce_run s ops))
   \<and> n \<notin> pending_nonces (confirm_nonce n s)
   \<and> pending_nonces (reset_nonce c s) = {}"
proof -
  have a: "current_nonce s = Some k \<longrightarrow>
      fst (get_nonces cs s) = map (\<lambda>i. k + int i) [0..<length cs]
      \<and> set (fst (get_nonces cs s)) = {k ..< k + int (length cs)}
      \<and> distinct (fst (get_nonces cs s))
      \<and> sorted_wrt (<) (fst (get_nonces cs s))
      \<and> current_nonce (snd (get_nonces cs s)) = Some (k + int (length cs))
      \<and> pending_nonces (snd (get_nonces cs s))
          = pending_nonces s \<union> {k ..< k + int (length cs)}"
    using consecutive_ints[of k "length cs"] by (simp add: get_nonces_from)
  have b: "current_nonce s = Some k \<and> (\<forall>x\<in>set ops. \<not> is_resync (snd x)) \<longrightarrow>
        (\<exists>k'\<ge>k. current_nonce (snd (nonce_run s ops)) = Some k'
           \<and> set (fst (nonce_run s ops)) = {k ..< k'}
           \<and> distinct (fst (nonce_run s ops)))"
  proof
    assume h: "current_nonce s = Some k \<and> (\<forall>x\<in>set ops. \<not> is_resync (snd x))"
    then obtain k' where k': "k \<le> k'"
      "current_nonce (snd (foldl nonce_step ([], s) ops)) = Some k'"
      "fst (foldl nonce_step ([], s) ops) = rev (map (\<lambda>i. k + int i) [0..<nat (k' - k)]) @ []"
      using nonce_steps_no_resync[of s k ops "[]"] by auto
    have "k + int (nat (k' - k)) = k'" using k'(1) by simp
    then show "\<exists>k'\<ge>k. current_nonce (snd (nonce_run s ops)) = Some k'
           \<and> set (fst (nonce_run s ops)) = {k ..< k'}
           \<and> distinct (fst (nonce_run s ops))"
      using k' consecutive_ints(1,2)[of k "nat (k' - k)"]
      by (intro exI[of _ k']) (simp add: nonce_run_def)
  qed
  have c: "pending_nonces (snd (nonce_run s ops))
        \<subseteq> pending_nonces s \<union> set (fst (nonce_run s ops))"
    using nonce_steps_subset[of "[]" s ops] by (simp add: nonce_run_def)
  have d: "n \<notin> pending_nonces (confirm_nonce n s)" by (simp add: confirm_nonce_def)
  have e: "pending_nonces (reset_nonce c s) = {}" by (simp add: reset_nonce_def)
  from a b c d e show ?thesis by blast
qed

theorem nonce_sequencing_witness:
  "current_nonce (nonce_manager_init (Some 7)) = Some 7
   \<and> fst (get_nonces [None, None, None] (nonce_manager_init (Some 7))) = [7, 8, 9]
   \<and> current_nonce (snd (get_nonces [None, None, None] (nonce_manager_init (Some 7)))) = Some 10
   \<and> pending_nonces (snd (get_nonces [None, None, None] (nonce_manager_init (Some 7)))) = {7, 8, 9}
   \<and> \<not> is_resync GetNonce \<and> \<not> is_resync (ConfirmNonce 7)
   \<and> fst (nonce_run (nonce_manager_init (Some 7))
        [(None, GetNonce), (None, ConfirmNonce 7), (None, GetNonce)]) = [8, 7]
   \<and> pending_nonces (snd (nonce_run (nonce_manager_init (Some 7))
        [(None, GetNonce), (None, ConfirmNonce 7), (None, GetNonce)])) = {8}"
proof -
  have hyp: "current_nonce (nonce_manager_init (Some 7)) = Some 7"
    by (simp add: nonce_manager_init_def sync_nonce_def)
  have run: "nonce_run (nonce_manager_init (Some 7))
               [(None, GetNonce), (None, ConfirmNonce 7), (None, GetNonce)]
             = ([8, 7], \<lparr> current_nonce = Some 9, pending_nonces = {8} \<rparr>)"
    by (simp add: nonce_manager_init_def sync_nonce_def get_nonce_def nonce_run_def
        confirm_nonce_def)
  have iv: "{7 ..< 7 + int (length [None :: int option, None, None])} = {7, 8, 9 :: int}"
    by auto
  show ?thesis
    using nonce_sequencing[of "nonce_manager_init (Some 7)" 7 "[None, None, None]"
        "[(None, GetNonce), (None, ConfirmNonce 7), (None, GetNonce)]" 7 None] hyp run iv
    by (simp add: is_resync_def nonce_manager_init_def sync_nonce_def upt_rec)
qed

section \<open>Properties of the opportunity scheduler\<close>

lemma with_keys_Inr:
  "with_keys name f xs = Inr ys \<Longrightarrow> ys = map (\<lambda>x. (the (f x), x)) xs \<and> (\<forall>x\<in>set xs. f x \<noteq> None)"
  by (induction xs arbitrary: ys) (auto split: option.splits sum.splits)

lemma with_keys_total:
  "\<forall>x\<in>set xs. f x \<noteq> None \<Longrightarrow> \<exists>ys. with_keys name f xs = Inr ys"
  by (induction xs) (auto split: option.splits sum.splits)

lemma sort_desc_set: "set (sort_desc ps) = set ps"
  by (simp add: sort_desc_def)

lemma sort_desc_hd:
  fixes ps :: "(('k :: {linorder, ordered_ab_group_add}) \<times> 'a) list"
  assumes "sort_desc ps = t # rest"
  shows "t \<in> set ps \<and> (\<forall>p\<in>set ps. fst p \<le> fst t)"
proof -
  have s: "sorted (map (\<lambda>p. - fst p) (sort_desc ps))"
    by (simp add: sort_desc_def)
  have "set (t # rest) = set ps" using assms sort_desc_set[of ps] by simp
  moreover have "\<forall>p\<in>set (t # rest). - fst t \<le> - fst p"
    using s assms by auto
  ultimately show ?thesis by auto
qed

lemma sort_desc_nonempty: "ps \<noteq> [] \<Longrightarrow> \<exists>t rest. sort_desc ps = t # rest"
proof -
  assume "ps \<noteq> []"
  then have "set (sort_desc ps) \<noteq> {}" by (simp add: sort_desc_set)
  then show ?thesis by (cases "sort_desc ps") auto
qed

lemma keyed_profit:
  assumes "with_keys n opp_expected_profit_usd C = Inr keyed"
  shows "keyed = map (\<lambda>x. (profit_of x, x)) C"
proof -
  have "keyed = map (\<lambda>x. (the (opp_expected_profit_usd x), x)) C"
    and "\<forall>x\<in>set C. opp_expected_profit_usd x \<noteq> None"
    using with_keys_Inr[OF assms] by auto
  then show ?thesis by (auto simp: profit_of_def)
qed

lemma top_profit_eq:
  assumes "t \<in> set C" and "\<forall>x\<in>set C. profit_of x \<le> profit_of t"
  shows "top_profit C = profit_of t"
  unfolding top_profit_def using assms by (intro Max_eqI) auto

lemma valid_of_confident: "confident_opps mc opps \<noteq> [] \<Longrightarrow> valid_opps opps \<noteq> []"
  by (auto simp: confident_opps_def)

lemma select_none:
  "confident_opps mc xs = [] \<Longrightarrow> select_best_opportunity mc xs = Inr None"
  by (simp add: select_best_opportunity_def)

lemma select_key_error:
  "confident_opps mc opps \<noteq> [] \<Longrightarrow>
   with_keys ''expected_profit_usd'' opp_expected_profit_usd (confident_opps mc opps) = Inl e \<Longrightarrow>
   select_best_opportunity mc opps = Inl e"
  using valid_of_confident[of mc opps] by (simp add: select_best_opportunity_def)


lemma select_unfold:
  assumes "confident_opps mc opps \<noteq> []"
    and "with_keys ''expected_profit_usd'' opp_expected_profit_usd (confident_opps mc opps) = Inr keyed"
    and "sort_desc keyed = t # rest"
  shows "select_best_opportunity mc opps =
           (if length (similar_opps t (t # rest)) > 1
            then choose_by_priority (similar_opps t (t # rest))
            else Inr (Some (snd t)))"
  using assms valid_of_confident[of mc opps] by (simp add: select_best_opportunity_def)

lemma choose_by_priority_Some:
  assumes "choose_by_priority sim = Inr (Some w)"
  shows "\<exists>p\<in>set sim. snd p = w \<and> (\<forall>q\<in>set sim. opp_priority (snd q) \<le> opp_priority w)"
proof (cases "with_keys ''strategy'' (\<lambda>p. opp_strategy (snd p)) sim")
  case (Inl e)
  with assms show ?thesis by (simp add: choose_by_priority_def)
next
  case (Inr bs)
  have bs_eq: "bs = map (\<lambda>p. (the (opp_strategy (snd p)), p)) sim"
    and bs_all: "\<forall>p\<in>set sim. opp_strategy (snd p) \<noteq> None"
    using with_keys_Inr[OF Inr] by auto
  define prs where "prs = map (\<lambda>q. (priority_of (fst q), snd q)) bs"
  have prs_eq: "prs = map (\<lambda>p. (opp_priority (snd p), p)) sim"
    using bs_all by (auto simp: prs_def bs_eq opp_priority_def)
  show ?thesis
  proof (cases "sort_desc prs")
    case Nil
    with assms Inr show ?thesis by (simp add: choose_by_priority_def prs_def)
  next
    case (Cons best rest')
    with assms Inr have w: "w = snd (snd best)" by (simp add: choose_by_priority_def prs_def)
    have b_in: "best \<in> set prs" and b_max: "\<forall>q\<in>set prs. fst q \<le> fst best"
      using sort_desc_hd[OF Cons] by auto
    from b_in obtain p where p: "p \<in> set sim" "best = (opp_priority (snd p), p)"
      unfolding prs_eq by auto
    have "\<forall>q\<in>set sim. opp_priority (snd q) \<le> opp_priority w"
    proof
      fix q assume "q \<in> set sim"
      then have "(opp_priority (snd q), q) \<in> set prs" unfolding prs_eq by simp
      with b_max have "fst (opp_priority (snd q), q) \<le> fst best" by blast
      then show "opp_priority (snd q) \<le> opp_priority w" using p(2) w by simp
    qed
    moreover have "snd p = w" using p(2) w by simp
    ultimately show ?thesis using p(1) by blast
  qed
qed

lemma choose_by_priority_total:
  assumes "sim \<noteq> []" and "\<forall>p\<in>set sim. opp_strategy (snd p) \<noteq> None"
  shows "\<exists>w. choose_by_priority sim = Inr (Some w)"
proof -
  obtain bs where bs: "with_keys ''strategy'' (\<lambda>p. opp_strategy (snd p)) sim = Inr bs"
    using with_keys_total[OF assms(2), of "''strategy''"] by blast
  have "bs = map (\<lambda>p. (the (opp_strategy (snd p)), p)) sim"
    using with_keys_Inr[OF bs] by simp
  then have "map (\<lambda>q. (priority_of (fst q), snd q)) bs \<noteq> []" using assms(1) by simp
  then obtain best r where "sort_desc (map (\<lambda>q. (priority_of (fst q), snd q)) bs) = best # r"
    using sort_desc_nonempty by blast
  with bs show ?thesis by (simp add: choose_by_priority_def)
qed

lemma select_setup:
  assumes ne: "confident_opps mc opps \<noteq> []"
    and k: "with_keys ''expected_profit_usd'' opp_expected_profit_usd (confident_opps mc opps) = Inr keyed"
    and s: "sort_desc keyed = t # rest"
  shows "fst t = profit_of (snd t)"
    and "snd t \<in> set (confident_opps mc opps)"
    and "top_profit (confident_opps mc opps) = fst t"
    and "\<And>x. in_band (confident_opps mc opps) x
            \<longleftrightarrow> (profit_of x, x) \<in> set (similar_opps t (t # rest))"
    and "t \<in> set (similar_opps t (t # rest))"
proof -
  define C where "C = confident_opps mc opps"
  have keyed: "keyed = map (\<lambda>x. (profit_of x, x)) C" using keyed_profit[OF k] by (simp add: C_def)
  have t_in: "t \<in> set keyed" and t_max: "\<forall>p\<in>set keyed. fst p \<le> fst t"
    using sort_desc_hd[OF s] by auto
  from t_in obtain y where y: "y \<in> set C" "t = (profit_of y, y)" unfolding keyed by auto
  show t_eq: "fst t = profit_of (snd t)" using y by simp
  show t_C: "snd t \<in> set (confident_opps mc opps)" using y by (simp add: C_def)
  have mx: "\<forall>x\<in>set C. profit_of x \<le> profit_of (snd t)"
  proof
    fix x assume "x \<in> set C"
    then have "(profit_of x, x) \<in> set keyed" unfolding keyed by simp
    with t_max have "fst (profit_of x, x) \<le> fst t" by blast
    then show "profit_of x \<le> profit_of (snd t)" using y by simp
  qed
  have "top_profit C = profit_of (snd t)"
    using top_profit_eq[of "snd t" C] t_C mx by (simp add: C_def)
  then show top: "top_profit (confident_opps mc opps) = fst t" using y by (simp add: C_def)
  have st: "set (t # rest) = set keyed" using sort_desc_set[of keyed] s by simp
  show "\<And>x. in_band (confident_opps mc opps) x
            \<longleftrightarrow> (profit_of x, x) \<in> set (similar_opps t (t # rest))"
  proof -
    fix x
    have "(profit_of x, x) \<in> set (similar_opps t (t # rest))
          \<longleftrightarrow> (profit_of x, x) \<in> set keyed \<and> \<bar>profit_of x - fst t\<bar> \<le> similar_profit_threshold"
      unfolding similar_opps_def set_filter st by simp
    also have "\<dots> \<longleftrightarrow> x \<in> set C \<and> \<bar>profit_of x - fst t\<bar> \<le> similar_profit_threshold"
      unfolding keyed by auto
    also have "\<dots> \<longleftrightarrow> in_band (confident_opps mc opps) x"
      unfolding in_band_def top by (simp add: C_def)
    finally show "in_band (confident_opps mc opps) x
            \<longleftrightarrow> (profit_of x, x) \<in> set (similar_opps t (t # rest))" by simp
  qed
  show "t \<in> set (similar_opps t (t # rest))"
    by (simp add: similar_opps_def similar_profit_threshold_def)
qed

lemma select_obtain:
  assumes sel: "select_best_opportunity mc opps = Inr r" and ne: "confident_opps mc opps \<noteq> []"
  shows "\<exists>keyed t rest.
           with_keys ''expected_profit_usd'' opp_expected_profit_usd (confident_opps mc opps) = Inr keyed
           \<and> sort_desc keyed = t # rest"
proof (cases "with_keys ''expected_profit_usd'' opp_expected_profit_usd (confident_opps mc opps)")
  case (Inl e)
  from select_key_error[OF ne Inl] sel show ?thesis by simp
next
  case (Inr keyed)
  have "keyed = map (\<lambda>x. (profit_of x, x)) (confident_opps mc opps)" using keyed_profit[OF Inr] .
  then have "keyed \<noteq> []" using ne by simp
  then show ?thesis using sort_desc_nonempty[of keyed] Inr by blast
qed

lemma select_core:
  assumes sel: "select_best_opportunity mc opps = Inr (Some w)"
  shows "in_band (confident_opps mc opps) w \<and>
         (\<forall>x. in_band (confident_opps mc opps) x \<longrightarrow> opp_priority x \<le> opp_priority w)"
proof -
  have ne: "confident_opps mc opps \<noteq> []"
    using sel select_none[of mc opps] by auto
  from select_obtain[OF sel ne] obtain keyed t rest where
    k: "with_keys ''expected_profit_usd'' opp_expected_profit_usd (confident_opps mc opps) = Inr keyed"
    and s: "sort_desc keyed = t # rest" by blast
  note su = select_setup[OF ne k s]
  note un = select_unfold[OF ne k s]
  let ?sim = "similar_opps t (t # rest)"
  show ?thesis
  proof (cases "length ?sim > 1")
    case True
    with un sel have "choose_by_priority ?sim = Inr (Some w)" by simp
    from choose_by_priority_Some[OF this] obtain p where
      p: "p \<in> set ?sim" "snd p = w" "\<forall>q\<in>set ?sim. opp_priority (snd q) \<le> opp_priority w"
      by blast
    have "set ?sim \<subseteq> set (t # rest)" unfolding similar_opps_def by (rule filter_is_subset)
    moreover have "set (t # rest) = set keyed" using sort_desc_set[of keyed] s by simp
    ultimately have "p \<in> set (map (\<lambda>x. (profit_of x, x)) (confident_opps mc opps))"
      using p(1) keyed_profit[OF k] by auto
    then have "fst p = profit_of (snd p)" by auto
    with p(2) have "(profit_of w, w) = p" by (cases p) simp
    with p(1) have "(profit_of w, w) \<in> set ?sim" by (simp only:)
    then have wb: "in_band (confident_opps mc opps) w" using su(4) by simp
    have "\<forall>x. in_band (confident_opps mc opps) x \<longrightarrow> opp_priority x \<le> opp_priority w"
    proof (intro allI impI)
      fix x assume "in_band (confident_opps mc opps) x"
      then have "(profit_of x, x) \<in> set ?sim" using su(4) by simp
      with p(3) have "opp_priority (snd (profit_of x, x)) \<le> opp_priority w" by blast
      then show "opp_priority x \<le> opp_priority w" by simp
    qed
    with wb show ?thesis by simp
  next
    case False
    with un sel have w: "w = snd t" by simp
    have one: "?sim = [t]"
    proof (cases ?sim)
      case Nil
      with su(5) show ?thesis by simp
    next
      case (Cons a list)
      with False have "list = []" by simp
      with Cons su(5) show ?thesis by simp
    qed
    have "\<forall>x. in_band (confident_opps mc opps) x \<longrightarrow> x = w"
    proof (intro allI impI)
      fix x assume "in_band (confident_opps mc opps) x"
      then have "(profit_of x, x) \<in> set ?sim" using su(4) by simp
      then have "(profit_of x, x) = t" unfolding one by simp
      then have "snd t = x" by (cases t) simp
      then show "x = w" using w by simp
    qed
    moreover have "in_band (confident_opps mc opps) w"
    proof -
      have "(profit_of (snd t), snd t) = t" using su(1) by (cases t) simp
      then have "(profit_of (snd t), snd t) \<in> set ?sim" using su(5) by (simp only:)
      then show ?thesis using su(4)[of "snd t"] w by (simp only:)
    qed
    ultimately show ?thesis by (metis order_refl)
  qed
qed

lemma select_total:
  assumes ne: "confident_opps mc opps \<noteq> []"
    and comp: "\<forall>x\<in>set (confident_opps mc opps). complete_opp x"
  shows "\<exists>w. select_best_opportunity mc opps = Inr (Some w)"
proof -
  have "\<forall>x\<in>set (confident_opps mc opps). opp_expected_profit_usd x \<noteq> None"
    using comp by (simp add: complete_opp_def)
  from with_keys_total[OF this, of "''expected_profit_usd''"] obtain keyed where
    k: "with_keys ''expected_profit_usd'' opp_expected_profit_usd (confident_opps mc opps) = Inr keyed"
    by blast
  have keyed: "keyed = map (\<lambda>x. (profit_of x, x)) (confident_opps mc opps)"
    using keyed_profit[OF k] .
  then have "keyed \<noteq> []" using ne by simp
  then obtain t rest where s: "sort_desc keyed = t # rest"
    using sort_desc_nonempty[of keyed] by blast
  note su = select_setup[OF ne k s]
  note un = select_unfold[OF ne k s]
  let ?sim = "similar_opps t (t # rest)"
  show ?thesis
  proof (cases "length ?sim > 1")
    case False
    with un show ?thesis by simp
  next
    case True
    have "set ?sim \<subseteq> set (t # rest)" unfolding similar_opps_def by (rule filter_is_subset)
    moreover have "set (t # rest) = set keyed" using sort_desc_set[of keyed] s by simp
    ultimately have sub: "set ?sim \<subseteq> set keyed" by simp
    have "\<forall>p\<in>set ?sim. opp_strategy (snd p) \<noteq> None"
    proof
      fix p assume "p \<in> set ?sim"
      with sub have "p \<in> set keyed" by blast
      then have "snd p \<in> set (confident_opps mc opps)" unfolding keyed by auto
      with comp show "opp_strategy (snd p) \<noteq> None" by (simp add: complete_opp_def)
    qed
    moreover have "?sim \<noteq> []" using su(5) by auto
    ultimately obtain w where "choose_by_priority ?sim = Inr (Some w)"
      using choose_by_priority_total[of ?sim] by blast
    with un True show ?thesis by simp
  qed
qed

lemma valid_opps_set: "opp \<in> set (valid_opps xs) \<longleftrightarrow> Some opp \<in> set xs"
  by (induction xs) (auto split: option.splits)

lemma confident_opps_set:
  "opp \<in> set (confident_opps mc xs) \<longleftrightarrow> Some opp \<in> set xs \<and> mc \<le> get_confidence opp"
  by (auto simp: confident_opps_def valid_opps_set)

lemma in_band_confident:
  "in_band (confident_opps mc xs) opp \<Longrightarrow> Some opp \<in> set xs \<and> mc \<le> get_confidence opp"
  by (simp add: in_band_def confident_opps_set)

text \<open>
  Claim C1.  Whenever the scheduler selects a winner, the winner lies in the band of
  confident candidates whose profit is within the fixed threshold of 2 of the best
  profit among them, and no candidate of that band has a higher strategy priority; the
  best profit bounds every candidate's profit.  When there are confident candidates and
  each carries its profit and its strategy, a winner is selected.  (On \<open>A\<close> and \<open>B\<close>
  with threshold 0.75 this forces the selection of \<open>A\<close>.)
\<close>

theorem select_best_opportunity_ranking:
  "(select_best_opportunity mc opps = Inr (Some w) \<longrightarrow>
      in_band (confident_opps mc opps) w
      \<and> (\<forall>x. in_band (confident_opps mc opps) x \<longrightarrow> opp_priority x \<le> opp_priority w)
      \<and> (\<forall>x\<in>set (confident_opps mc opps). profit_of x \<le> top_profit (confident_opps mc opps)))
   \<and> (confident_opps mc opps \<noteq> [] \<and> (\<forall>x\<in>set (confident_opps mc opps). complete_opp x)
        \<longrightarrow> (\<exists>w. select_best_opportunity mc opps = Inr (Some w)))"
proof -
  have "\<forall>x\<in>set (confident_opps mc opps). profit_of x \<le> top_profit (confident_opps mc opps)"
    by (simp add: top_profit_def)
  then show ?thesis
    using select_core[of mc opps w] select_total[of mc opps] by blast
qed

theorem select_best_opportunity_ranking_witness:
  "confident_opps 0.75 [Some opp_A, Some opp_B] = [opp_A, opp_B]
   \<and> complete_opp opp_A \<and> complete_opp opp_B
   \<and> profit_of opp_A = 50 \<and> profit_of opp_B = 51
   \<and> opp_priority opp_A = 5 \<and> opp_priority opp_B = 2
   \<and> in_band [opp_A, opp_B] opp_A \<and> in_band [opp_A, opp_B] opp_B
   \<and> select_best_opportunity 0.75 [Some opp_A, Some opp_B] = Inr (Some opp_A)"
proof -
  have c: "confident_opps 0.75 [Some opp_A, Some opp_B] = [opp_A, opp_B]"
    by (simp add: confident_opps_def get_confidence_def opp_A_def opp_B_def)
  have k: "complete_opp opp_A" "complete_opp opp_B"
    by (simp_all add: complete_opp_def opp_A_def opp_B_def)
  have p: "profit_of opp_A = 50" "profit_of opp_B = 51"
    by (simp_all add: profit_of_def opp_A_def opp_B_def)
  have q: "opp_priority opp_A = 5" "opp_priority opp_B = 2"
    by (simp_all add: opp_priority_def priority_of_def priority_map_def opp_A_def opp_B_def)
  have b: "in_band [opp_A, opp_B] opp_A" "in_band [opp_A, opp_B] opp_B"
    by (simp_all add: in_band_def top_profit_def p similar_profit_threshold_def)
  have ne: "[opp_A, opp_B] \<noteq> []" "\<forall>x\<in>set [opp_A, opp_B]. complete_opp x"
    using k by simp_all
  obtain w where w: "select_best_opportunity 0.75 [Some opp_A, Some opp_B] = Inr (Some w)"
    using select_best_opportunity_ranking[of "0.75" "[Some opp_A, Some opp_B]" opp_A, unfolded c] ne
    by blast
  have "in_band [opp_A, opp_B] w" "opp_priority opp_A \<le> opp_priority w"
    using select_best_opportunity_ranking[of "0.75" "[Some opp_A, Some opp_B]" w, unfolded c] w b
    by blast+
  then have "w \<in> set [opp_A, opp_B]" "opp_priority opp_A \<le> opp_priority w"
    by (simp_all only: in_band_def)
  then have "w = opp_A" using q by auto
  with w have sel: "select_best_opportunity 0.75 [Some opp_A, Some opp_B] = Inr (Some opp_A)"
    by (simp only:)
  show ?thesis by (intro conjI c k p q b sel)
qed

text \<open>
  Claim C5.  A winner is one of the cycle's candidates and its confidence (0 when the
  opportunity carries none) is at least \<open>min_confidence\<close>, whatever the profits; and
  when every candidate is below the threshold, or there is none, nothing is selected.
\<close>

theorem confidence_filter:
  "(select_best_opportunity mc opps = Inr (Some w) \<longrightarrow>
      Some w \<in> set opps \<and> mc \<le> get_confidence w)
   \<and> ((\<forall>x. Some x \<in> set opps \<longrightarrow> get_confidence x < mc) \<longrightarrow>
        select_best_opportunity mc opps = Inr None)"
proof -
  have a: "select_best_opportunity mc opps = Inr (Some w) \<longrightarrow>
      Some w \<in> set opps \<and> mc \<le> get_confidence w"
    using select_core[of mc opps w] in_band_confident[of mc opps w] by blast
  have b: "(\<forall>x. Some x \<in> set opps \<longrightarrow> get_confidence x < mc) \<longrightarrow>
        select_best_opportunity mc opps = Inr None"
  proof
    assume h: "\<forall>x. Some x \<in> set opps \<longrightarrow> get_confidence x < mc"
    have "\<forall>x\<in>set (confident_opps mc opps). False"
      using h by (fastforce simp: confident_opps_set)
    then have "confident_opps mc opps = []"
      by (cases "confident_opps mc opps") auto
    then show "select_best_opportunity mc opps = Inr None"
      by (rule select_none)
  qed
  from a b show ?thesis by blast
qed

theorem confidence_filter_witness:
  "get_confidence opp_unsure < 0.75
   \<and> profit_of opp_B < profit_of opp_unsure
   \<and> select_best_opportunity 0.75 [Some opp_unsure, None, Some opp_B] = Inr (Some opp_B)
   \<and> 0.75 \<le> get_confidence opp_B
   \<and> select_best_opportunity 0.75 [Some opp_unsure, None] = Inr None
   \<and> select_best_opportunity 0.75 [] = Inr None"
proof -
  have s: "select_best_opportunity 0.75 [Some opp_unsure, None, Some opp_B] = Inr (Some opp_B)"
    by (simp add: select_best_opportunity_def confident_opps_def get_confidence_def
        opp_unsure_def opp_B_def sort_desc_def similar_opps_def similar_profit_threshold_def)
  have u: "get_confidence opp_unsure < 0.75" "profit_of opp_B < profit_of opp_unsure"
    by (simp_all add: get_confidence_def profit_of_def opp_unsure_def opp_B_def)
  have n: "\<forall>x. Some x \<in> set [Some opp_unsure, None] \<longrightarrow> get_confidence x < 0.75"
    using u by simp
  have r1: "0.75 \<le> get_confidence opp_B"
    using confidence_filter[of "0.75" "[Some opp_unsure, None, Some opp_B]" opp_B] s by blast
  have r2: "select_best_opportunity 0.75 [Some opp_unsure, None] = Inr None"
    using confidence_filter[of "0.75" "[Some opp_unsure, None]" opp_B] n by blast
  have r3: "select_best_opportunity 0.75 [] = Inr None"
    using confidence_filter[of "0.75" "[]" opp_B] by simp
  show ?thesis by (intro conjI u s r1 r2 r3)
qed

section \<open>Properties of the gas pricer\<close>

lemma py_int_mono: "x \<le> y \<Longrightarrow> py_int x \<le> py_int y"
proof -
  assume xy: "x \<le> y"
  consider "0 \<le> x" | "x < 0" "0 \<le> y" | "y < 0" by linarith
  then show ?thesis
  proof cases
    case 1
    with xy show ?thesis by (simp add: py_int_def floor_mono)
  next
    case 2
    have "\<lceil>x\<rceil> \<le> 0" using 2(1) by (simp add: ceiling_le_zero)
    moreover have "0 \<le> \<lfloor>y\<rfloor>" using 2(2) by simp
    ultimately have "\<lceil>x\<rceil> \<le> \<lfloor>y\<rfloor>" by linarith
    then show ?thesis using 2 by (simp add: py_int_def)
  next
    case 3
    with xy show ?thesis by (simp add: py_int_def ceiling_mono)
  qed
qed

lemma gwei_to_wei_mono: "x \<le> y \<Longrightarrow> gwei_to_wei x \<le> gwei_to_wei y"
  unfolding gwei_to_wei_def by (rule py_int_mono) simp

lemma enforce_constraints_bounds:
  "enforce_constraints t profit x \<le> max_acceptable_tip_gwei profit"
  "enforce_constraints t profit x \<le> max (min_tip_gwei t) (max_tip_gwei t)"
  "min_tip_gwei t \<le> max_tip_gwei t \<Longrightarrow> enforce_constraints t profit x \<le> max_tip_gwei t"
  "min_tip_gwei t \<le> max_acceptable_tip_gwei profit \<Longrightarrow> min_tip_gwei t \<le> enforce_constraints t profit x"
  "max_acceptable_tip_gwei profit \<le> min_tip_gwei t \<Longrightarrow>
     enforce_constraints t profit x = max_acceptable_tip_gwei profit"
  by (auto simp: enforce_constraints_def)

lemma optimal_tip_gwei_Inr:
  assumes "optimal_tip_gwei t opp = Inr g" and "opp_expected_profit_usd opp = Some profit"
  shows "\<exists>x. g = enforce_constraints t profit x"
  using assms by (auto simp: optimal_tip_gwei_def split: option.splits sum.splits)

text \<open>
  Claim C8, as amended.  When the tip computation raises nothing, the returned tip is
  the conversion to wei of a gwei amount that is at most the cap of 10 percent of the
  expected profit and at most the larger of \<open>min_tip\<close> and \<open>max_tip\<close> (so at most
  \<open>max_tip\<close> when \<open>min_tip \<le> max_tip\<close>); it is at least \<open>min_tip\<close> when the cap is,
  and it is the cap itself when the cap is at most \<open>min_tip\<close>.  The bounds carry over
  to the returned wei amount.  When the computation raises (a key is missing), the
  fallback returns \<open>min_tip\<close>, and the cap is not applied.
\<close>

theorem tip_bounds:
  "(optimal_tip_gwei t opp = Inr g \<and> opp_expected_profit_usd opp = Some profit \<longrightarrow>
      calculate_optimal_tip t opp = gwei_to_wei g
      \<and> g \<le> max_acceptable_tip_gwei profit
      \<and> g \<le> max (min_tip_gwei t) (max_tip_gwei t)
      \<and> (min_tip_gwei t \<le> max_tip_gwei t \<longrightarrow> g \<le> max_tip_gwei t)
      \<and> (min_tip_gwei t \<le> max_acceptable_tip_gwei profit \<longrightarrow> min_tip_gwei t \<le> g)
      \<and> (max_acceptable_tip_gwei profit \<le> min_tip_gwei t \<longrightarrow> g = max_acceptable_tip_gwei profit)
      \<and> calculate_optimal_tip t opp \<le> gwei_to_wei (max_acceptable_tip_gwei profit)
      \<and> (min_tip_gwei t \<le> max_tip_gwei t \<longrightarrow>
            calculate_optimal_tip t opp \<le> gwei_to_wei (max_tip_gwei t))
      \<and> (min_tip_gwei t \<le> max_acceptable_tip_gwei profit \<longrightarrow>
            gwei_to_wei (min_tip_gwei t) \<le> calculate_optimal_tip t opp))
   \<and> (optimal_tip_gwei t opp = Inl e \<longrightarrow>
        calculate_optimal_tip t opp = gwei_to_wei (min_tip_gwei t))"
proof -
  have b: "optimal_tip_gwei t opp = Inl e \<longrightarrow>
        calculate_optimal_tip t opp = gwei_to_wei (min_tip_gwei t)"
    by (simp add: calculate_optimal_tip_def)
  have a: "optimal_tip_gwei t opp = Inr g \<and> opp_expected_profit_usd opp = Some profit \<longrightarrow>
      calculate_optimal_tip t opp = gwei_to_wei g
      \<and> g \<le> max_acceptable_tip_gwei profit
      \<and> g \<le> max (min_tip_gwei t) (max_tip_gwei t)
      \<and> (min_tip_gwei t \<le> max_tip_gwei t \<longrightarrow> g \<le> max_tip_gwei t)
      \<and> (min_tip_gwei t \<le> max_acceptable_tip_gwei profit \<longrightarrow> min_tip_gwei t \<le> g)
      \<and> (max_acceptable_tip_gwei profit \<le> min_tip_gwei t \<longrightarrow> g = max_acceptable_tip_gwei profit)
      \<and> calculate_optimal_tip t opp \<le> gwei_to_wei (max_acceptable_tip_gwei profit)
      \<and> (min_tip_gwei t \<le> max_tip_gwei t \<longrightarrow>
            calculate_optimal_tip t opp \<le> gwei_to_wei (max_tip_gwei t))
      \<and> (min_tip_gwei t \<le> max_acceptable_tip_gwei profit \<longrightarrow>
            gwei_to_wei (min_tip_gwei t) \<le> calculate_optimal_tip t opp)"
  proof
    assume h: "optimal_tip_gwei t opp = Inr g \<and> opp_expected_profit_usd opp = Some profit"
    then obtain x where g: "g = enforce_constraints t profit x"
      using optimal_tip_gwei_Inr[of t opp g profit] by blast
    have c: "calculate_optimal_tip t opp = gwei_to_wei g"
      using h by (simp add: calculate_optimal_tip_def)
    note e = enforce_constraints_bounds[where t = t and profit = profit and x = x, folded g]
    show "calculate_optimal_tip t opp = gwei_to_wei g
      \<and> g \<le> max_acceptable_tip_gwei profit
      \<and> g \<le> max (min_tip_gwei t) (max_tip_gwei t)
      \<and> (min_tip_gwei t \<le> max_tip_gwei t \<longrightarrow> g \<le> max_tip_gwei t)
      \<and> (min_tip_gwei t \<le> max_acceptable_tip_gwei profit \<longrightarrow> min_tip_gwei t \<le> g)
      \<and> (max_acceptable_tip_gwei profit \<le> min_tip_gwei t \<longrightarrow> g = max_acceptable_tip_gwei profit)
      \<and> calculate_optimal_tip t opp \<le> gwei_to_wei (max_acceptable_tip_gwei profit)
      \<and> (min_tip_gwei t \<le> max_tip_gwei t \<longrightarrow>
            calculate_optimal_tip t opp \<le> gwei_to_wei (max_tip_gwei t))
      \<and> (min_tip_gwei t \<le> max_acceptable_tip_gwei profit \<longrightarrow>
            gwei_to_wei (min_tip_gwei t) \<le> calculate_optimal_tip t opp)"
      unfolding c using e gwei_to_wei_mono by blast
  qed
  from a b show ?thesis by blast
qed

lemma tiny_gwei: "optimal_tip_gwei tip_cfg opp_tiny = Inr (25 / 2)"
  by (simp add: optimal_tip_gwei_def tip_cfg_def opp_tiny_def sandwich_tip_def
      profit_scaled_tip_def ml_blended_tip_def enforce_constraints_def max_acceptable_tip_gwei_def)

lemma sandwich_gwei: "optimal_tip_gwei tip_cfg opp_A = Inr 45"
  by (simp add: optimal_tip_gwei_def tip_cfg_def opp_A_def sandwich_tip_def
      profit_scaled_tip_def ml_blended_tip_def enforce_constraints_def max_acceptable_tip_gwei_def)

theorem tip_bounds_witness:
  "optimal_tip_gwei tip_cfg opp_A = Inr 45
   \<and> opp_expected_profit_usd opp_A = Some 50
   \<and> min_tip_gwei tip_cfg \<le> max_tip_gwei tip_cfg
   \<and> min_tip_gwei tip_cfg \<le> max_acceptable_tip_gwei 50
   \<and> gwei_to_wei (min_tip_gwei tip_cfg) \<le> calculate_optimal_tip tip_cfg opp_A
   \<and> calculate_optimal_tip tip_cfg opp_A \<le> gwei_to_wei (max_tip_gwei tip_cfg)
   \<and> calculate_optimal_tip tip_cfg opp_A \<le> gwei_to_wei (max_acceptable_tip_gwei 50)
   \<and> optimal_tip_gwei tip_cfg opp_bare = Inl (KeyError ''data'')
   \<and> calculate_optimal_tip tip_cfg opp_bare = gwei_to_wei (min_tip_gwei tip_cfg)
   \<and> opp_expected_profit_usd opp_tiny = Some (1 / 10000)
   \<and> max_acceptable_tip_gwei (1 / 10000) \<le> min_tip_gwei tip_cfg
   \<and> optimal_tip_gwei tip_cfg opp_tiny = Inr (max_acceptable_tip_gwei (1 / 10000))"
proof -
  have q: "opp_expected_profit_usd opp_tiny = Some (1 / 10000)" by (simp add: opp_tiny_def)
  have k: "max_acceptable_tip_gwei (1 / 10000) \<le> min_tip_gwei tip_cfg"
    by (simp add: tip_cfg_def max_acceptable_tip_gwei_def)
  from tip_bounds[of tip_cfg opp_tiny "25 / 2" "1 / 10000" "KeyError ''data''"] tiny_gwei q k
  have "25 / 2 = max_acceptable_tip_gwei (1 / 10000)" by blast
  with tiny_gwei have d: "optimal_tip_gwei tip_cfg opp_tiny = Inr (max_acceptable_tip_gwei (1 / 10000))"
    by (simp only:)
  have p: "opp_expected_profit_usd opp_A = Some 50" by (simp add: opp_A_def)
  have m: "min_tip_gwei tip_cfg \<le> max_tip_gwei tip_cfg"
    "min_tip_gwei tip_cfg \<le> max_acceptable_tip_gwei 50"
    by (simp_all add: tip_cfg_def max_acceptable_tip_gwei_def)
  have b: "optimal_tip_gwei tip_cfg opp_bare = Inl (KeyError ''data'')"
    by (simp add: optimal_tip_gwei_def opp_bare_def sandwich_tip_def)
  from tip_bounds[of tip_cfg opp_A 45 50 "KeyError ''data''"] sandwich_gwei p m
  have a: "gwei_to_wei (min_tip_gwei tip_cfg) \<le> calculate_optimal_tip tip_cfg opp_A"
    "calculate_optimal_tip tip_cfg opp_A \<le> gwei_to_wei (max_tip_gwei tip_cfg)"
    "calculate_optimal_tip tip_cfg opp_A \<le> gwei_to_wei (max_acceptable_tip_gwei 50)"
    by blast+
  from tip_bounds[of tip_cfg opp_bare 45 50 "KeyError ''data''"] b
  have c: "calculate_optimal_tip tip_cfg opp_bare = gwei_to_wei (min_tip_gwei tip_cfg)"
    by blast
  show ?thesis by (intro conjI sandwich_gwei p m a b c q k d)
qed

text \<open>
  Claim C8 as stated fails where the cap is below \<open>min_tip\<close>: with a minimum of 30 gwei
  and an expected profit of 0.0001 USD the returned tip is 12.5 gwei, below the minimum.
\<close>

theorem tip_bounds_counterexample:
  "calculate_optimal_tip tip_cfg opp_tiny = 12500000000
   \<and> gwei_to_wei (min_tip_gwei tip_cfg) = 30000000000
   \<and> calculate_optimal_tip tip_cfg opp_tiny < gwei_to_wei (min_tip_gwei tip_cfg)"
proof -
  have a: "calculate_optimal_tip tip_cfg opp_tiny = 12500000000"
    by (simp add: calculate_optimal_tip_def tiny_gwei gwei_to_wei_def py_int_def)
  have b: "gwei_to_wei (min_tip_gwei tip_cfg) = 30000000000"
    by (simp add: tip_cfg_def gwei_to_wei_def py_int_def)
  show ?thesis unfolding a b by simp
qed

section \<open>Properties of the cache\<close>

lemma cache_get_fresh:
  assumes "conn c = Some table" and "table key = Some row"
    and "now - row_timestamp row \<le> real_of_int (row_ttl row)"
  shows "cache_get loads now key c = (loads (row_value row), c)"
  using assms by (simp add: cache_get_def Let_def)

lemma cache_get_expired:
  assumes "conn c = Some table" and "table key = Some row"
    and "now - row_timestamp row > real_of_int (row_ttl row)"
  shows "cache_get loads now key c = (None, cache_delete key c)"
  using assms by (simp add: cache_get_def Let_def)

lemma cache_get_absent:
  "\<not> has_row c key \<Longrightarrow> cache_get loads now key c = (None, c)"
  by (auto simp: cache_get_def has_row_def split: option.splits)

lemma cache_delete_has_row: "\<not> has_row (cache_delete key c) key"
  by (simp add: cache_delete_def has_row_def split: option.splits)

lemma cache_set_overflow:
  "\<not> sqlite_integer ttl \<Longrightarrow> cache_set dumps now key v ttl c = c"
  by (simp add: cache_set_def split: option.splits)

text \<open>
  Claim C9.  After a value was stored under a key with a time to live (the database
  being open, the value surviving the JSON round trip and the time to live fitting the
  \<open>INTEGER\<close> column, without which \<open>set\<close> stores nothing), a \<open>get\<close> up to \<open>ttl\<close>
  seconds later returns the value and leaves the cache as it is; a \<open>get\<close> more than
  \<open>ttl\<close> seconds later returns nothing and removes the row, without any call of an
  eviction method, so that every later \<open>get\<close> returns nothing too.
\<close>

theorem cache_ttl:
  assumes "conn c = Some table" and "dumps v = Some j" and "loads j = Some v"
    and "sqlite_integer ttl"
  shows "(t1 - t0 \<le> real_of_int ttl \<longrightarrow>
            cache_get loads t1 key (cache_set dumps t0 key v ttl c)
              = (Some v, cache_set dumps t0 key v ttl c))
         \<and> (t1 - t0 > real_of_int ttl \<longrightarrow>
            fst (cache_get loads t1 key (cache_set dumps t0 key v ttl c)) = None
            \<and> \<not> has_row (snd (cache_get loads t1 key (cache_set dumps t0 key v ttl c))) key
            \<and> fst (cache_get loads t2 key
                  (snd (cache_get loads t1 key (cache_set dumps t0 key v ttl c)))) = None)"
proof -
  let ?c1 = "cache_set dumps t0 key v ttl c"
  let ?row = "\<lparr> row_value = j, row_timestamp = t0, row_ttl = ttl \<rparr>"
  have c1: "conn ?c1 = Some (table(key \<mapsto> ?row))"
    using assms(1,2,4) by (simp add: cache_set_def)
  have r: "(table(key \<mapsto> ?row)) key = Some ?row" by simp
  have fresh: "t1 - t0 \<le> real_of_int ttl \<longrightarrow> cache_get loads t1 key ?c1 = (Some v, ?c1)"
    using cache_get_fresh[OF c1 r, of t1 loads] assms(3) by simp
  have old: "t1 - t0 > real_of_int ttl \<longrightarrow>
       cache_get loads t1 key ?c1 = (None, cache_delete key ?c1)"
    using cache_get_expired[OF c1 r, of t1 loads] by simp
  have gone: "cache_get loads t2 key (cache_delete key ?c1) = (None, cache_delete key ?c1)"
    using cache_get_absent[OF cache_delete_has_row] .
  from fresh old gone cache_delete_has_row[of key ?c1] show ?thesis by simp
qed

theorem cache_ttl_witness:
  "conn empty_cache = Some Map.empty
   \<and> sqlite_integer 1
   \<and> cache_get Some 100 ''price'' (cache_set Some 100 ''price'' ''42'' 1 empty_cache)
       = (Some ''42'', cache_set Some 100 ''price'' ''42'' 1 empty_cache)
   \<and> cache_get Some 101 ''price'' (cache_set Some 100 ''price'' ''42'' 1 empty_cache)
       = (Some ''42'', cache_set Some 100 ''price'' ''42'' 1 empty_cache)
   \<and> fst (cache_get Some 102 ''price'' (cache_set Some 100 ''price'' ''42'' 1 empty_cache)) = None
   \<and> \<not> has_row (snd (cache_get Some 102 ''price''
          (cache_set Some 100 ''price'' ''42'' 1 empty_cache))) ''price''
   \<and> fst (cache_get Some 100 ''price'' (snd (cache_get Some 102 ''price''
          (cache_set Some 100 ''price'' ''42'' 1 empty_cache)))) = None"
proof -
  have e: "conn empty_cache = Some Map.empty" by (simp add: empty_cache_def)
  have i: "sqlite_integer 1" by (simp add: sqlite_integer_def)
  note w1 = cache_ttl[where c = empty_cache and table = Map.empty and dumps = Some
      and loads = Some and v = "''42''" and j = "''42''" and ?t0.0 = 100 and ?t1.0 = 100
      and ttl = 1 and key = "''price''" and ?t2.0 = 100]
  note w1' = cache_ttl[where c = empty_cache and table = Map.empty and dumps = Some
      and loads = Some and v = "''42''" and j = "''42''" and ?t0.0 = 100 and ?t1.0 = 101
      and ttl = 1 and key = "''price''" and ?t2.0 = 100]
  note w2 = cache_ttl[where c = empty_cache and table = Map.empty and dumps = Some
      and loads = Some and v = "''42''" and j = "''42''" and ?t0.0 = 100 and ?t1.0 = 102
      and ttl = 1 and key = "''price''" and ?t2.0 = 100]
  have a: "cache_get Some 100 ''price'' (cache_set Some 100 ''price'' ''42'' 1 empty_cache)
       = (Some ''42'', cache_set Some 100 ''price'' ''42'' 1 empty_cache)"
    using e i w1 by simp
  have a': "cache_get Some 101 ''price'' (cache_set Some 100 ''price'' ''42'' 1 empty_cache)
       = (Some ''42'', cache_set Some 100 ''price'' ''42'' 1 empty_cache)"
    using e i w1' by simp
  have b: "fst (cache_get Some 102 ''price'' (cache_set Some 100 ''price'' ''42'' 1 empty_cache)) = None"
    "\<not> has_row (snd (cache_get Some 102 ''price''
          (cache_set Some 100 ''price'' ''42'' 1 empty_cache))) ''price''"
    "fst (cache_get Some 100 ''price'' (snd (cache_get Some 102 ''price''
          (cache_set Some 100 ''price'' ''42'' 1 empty_cache)))) = None"
    using e i w2 by simp_all
  show ?thesis by (intro conjI e i a a' b)
qed

section \<open>Properties of the endpoint failover manager\<close>














section \<open>Properties of the batched read aggregator\<close>









lemma execute_chunk_raises:
  "those (map (multicall_call mc af) chunk) = Some mcs \<Longrightarrow> aggregate3 mc mcs = None \<Longrightarrow>
   execute_chunk mc chunk af = replicate (length chunk) None"
  by (simp add: execute_chunk_def)














end
